theory Spec2Isabelle
  imports Main "HOL-Library.Multiset"
begin

section \<open>Data model\<close>

type_synonym pk = nat

text \<open>A timestamp is a point on a discrete, totally ordered time line.\<close>

type_synonym datetime = int

text \<open>
  Modelled from the spec: blog/models.py is not among the sources, so the rows of the four
  tables carry the attributes that section 3 of the specification lists. A foreign key is
  the primary key of the row it refers to; the category and the location of a post are
  optional (nullable), its author and the post and author of a comment are required.
\<close>

record user =
  user_pk :: pk
  username :: string

record category =
  category_pk :: pk
  category_title :: string
  slug :: string
  category_is_published :: bool

record post =
  post_pk :: pk
  post_author :: pk
  post_category :: "pk option"
  post_location :: "pk option"
  post_title :: string
  post_text :: string
  pub_date :: datetime
  is_published :: bool
  post_created_at :: datetime

record comment =
  comment_pk :: pk
  comment_post :: pk
  comment_author :: pk
  comment_text :: string
  comment_created_at :: datetime

text \<open>
  The persistent store: one list of rows per table, in the table's storage order. The
  store keeps primary keys, usernames and category slugs unique; the theorems below that
  need it assume it of the table they read.
\<close>

record database =
  users :: "user list"
  categories :: "category list"
  posts :: "post list"
  comments :: "comment list"

text \<open>\<open>request.user\<close>: the anonymous user, or the row of the user who is logged in.\<close>

datatype request_user = AnonymousUser | Authenticated user

fun is_authenticated :: "request_user \<Rightarrow> bool" where
  "is_authenticated AnonymousUser = False"
| "is_authenticated (Authenticated u) = True"

text \<open>
  \<open>row.author == request.user\<close>: two model instances are equal when their primary keys
  are; the anonymous user is equal to no row.
\<close>

fun is_user :: "request_user \<Rightarrow> pk \<Rightarrow> bool" where
  "is_user AnonymousUser k = False"
| "is_user (Authenticated u) k = (user_pk u = k)"

section \<open>Queries\<close>

datatype error = Http404 | MultipleObjectsReturned

text \<open>
  \<open>get_object_or_404\<close> on the rows a query selects: no row is a not-found response, one row
  is returned, and more than one row is the exception \<open>get()\<close> raises, which
  \<open>get_object_or_404\<close> does not catch.
\<close>

fun get_object_or_404 :: "'a list \<Rightarrow> error + 'a" where
  "get_object_or_404 [] = Inl Http404"
| "get_object_or_404 [x] = Inr x"
| "get_object_or_404 (x # y # zs) = Inl MultipleObjectsReturned"

text \<open>Following the foreign keys of a post: the joined row, if there is one.\<close>

definition related_category :: "database \<Rightarrow> post \<Rightarrow> category option" where
  "related_category db p =
     (case post_category p of
        None \<Rightarrow> None
      | Some k \<Rightarrow> find (\<lambda>c. category_pk c = k) (categories db))"

definition related_author :: "database \<Rightarrow> post \<Rightarrow> user option" where
  "related_author db p = find (\<lambda>u. user_pk u = post_author p) (users db)"

text \<open>
  The lookup \<open>category__is_published=True\<close>: the condition is on the joined category row,
  so a post without a category row does not satisfy it.
\<close>

definition lookup_category_is_published :: "database \<Rightarrow> post \<Rightarrow> bool" where
  "lookup_category_is_published db p =
     (case related_category db p of None \<Rightarrow> False | Some c \<Rightarrow> category_is_published c)"

text \<open>The lookup \<open>author__username=name\<close>.\<close>

definition lookup_author_username :: "database \<Rightarrow> string \<Rightarrow> post \<Rightarrow> bool" where
  "lookup_author_username db name p =
     (case related_author db p of None \<Rightarrow> False | Some a \<Rightarrow> username a = name)"

text \<open>
  \<open>annotate(comment_count=Count("comments"))\<close>: the posts are left-joined with their
  comments, a post without comments giving one row with no comment, and the rows of each
  post are counted where the comment is present.
\<close>

definition comments_join :: "database \<Rightarrow> post \<Rightarrow> comment option list" where
  "comments_join db p =
     (case filter (\<lambda>c. comment_post c = post_pk p) (comments db) of
        [] \<Rightarrow> [None]
      | c # cs \<Rightarrow> map Some (c # cs))"

definition Count_comments :: "database \<Rightarrow> post \<Rightarrow> nat" where
  "Count_comments db p = length (filter (\<lambda>r. r \<noteq> None) (comments_join db p))"

definition annotate_comment_count :: "database \<Rightarrow> post list \<Rightarrow> (post \<times> nat) list" where
  "annotate_comment_count db ps = map (\<lambda>p. (p, Count_comments db p)) ps"

text \<open>
  \<open>order_by("-pub_date")\<close>: latest first. Rows with the same timestamp keep their order,
  one of the orders the store may return them in.
\<close>

definition order_by_pub_date_desc :: "(post \<times> nat) list \<Rightarrow> (post \<times> nat) list" where
  "order_by_pub_date_desc rows = sort_key (\<lambda>r. - pub_date (fst r)) rows"

section \<open>Views (blog/views.py)\<close>

definition MAX_QUANTITY_POST :: nat where
  "MAX_QUANTITY_POST = 10"

text \<open>The three places where the views filter posts for the public, each as it is written.\<close>

definition get_post_data_filter :: "database \<Rightarrow> datetime \<Rightarrow> post \<Rightarrow> bool" where
  "get_post_data_filter db now p =
     (pub_date p \<le> now \<and> is_published p = True \<and> lookup_category_is_published db p = True)"

definition CommonListMixin_filter :: "database \<Rightarrow> datetime \<Rightarrow> post \<Rightarrow> bool" where
  "CommonListMixin_filter db now p =
     (is_published p = True \<and> lookup_category_is_published db p = True \<and> pub_date p \<le> now)"

definition PostDetailView_filter :: "database \<Rightarrow> request_user \<Rightarrow> datetime \<Rightarrow> post \<Rightarrow> bool" where
  "PostDetailView_filter db usr now p =
     (is_user usr (post_author p)
      \<or> (pub_date p \<le> now \<and> is_published p = True \<and> lookup_category_is_published db p = True))"

definition get_post_data :: "database \<Rightarrow> datetime \<Rightarrow> pk \<Rightarrow> error + post" where
  "get_post_data db now ident =
     get_object_or_404
       (filter (\<lambda>p. post_pk p = ident) (filter (get_post_data_filter db now) (posts db)))"

definition CommonListMixin_get_queryset :: "database \<Rightarrow> datetime \<Rightarrow> (post \<times> nat) list" where
  "CommonListMixin_get_queryset db now =
     order_by_pub_date_desc
       (annotate_comment_count db (filter (CommonListMixin_filter db now) (posts db)))"

definition PostDetailView_get_object ::
  "database \<Rightarrow> request_user \<Rightarrow> datetime \<Rightarrow> pk \<Rightarrow> error + post" where
  "PostDetailView_get_object db usr now ident =
     (if is_authenticated usr
      then get_object_or_404
             (filter (\<lambda>p. PostDetailView_filter db usr now p \<and> post_pk p = ident) (posts db))
      else get_post_data db now ident)"

definition CategoryPostsListView_get_queryset ::
  "database \<Rightarrow> datetime \<Rightarrow> string \<Rightarrow> error + (post \<times> nat) list" where
  "CategoryPostsListView_get_queryset db now category_slug =
     (case get_object_or_404
             (filter (\<lambda>c. slug c = category_slug \<and> category_is_published c = True)
                (categories db)) of
        Inl e \<Rightarrow> Inl e
      | Inr cat \<Rightarrow>
          Inr (filter (\<lambda>r. post_category (fst r) = Some (category_pk cat))
                 (CommonListMixin_get_queryset db now)))"

definition ProfileListView_get_queryset ::
  "database \<Rightarrow> request_user \<Rightarrow> datetime \<Rightarrow> string \<Rightarrow> error + (post \<times> nat) list" where
  "ProfileListView_get_queryset db usr now name =
     (case get_object_or_404 (filter (\<lambda>u. username u = name) (users db)) of
        Inl e \<Rightarrow> Inl e
      | Inr owner \<Rightarrow>
          if is_user usr (user_pk owner)
          then Inr (order_by_pub_date_desc
                 (annotate_comment_count db
                    (filter (lookup_author_username db (username owner)) (posts db))))
          else Inr (CommonListMixin_get_queryset db now))"

subsection \<open>Pagination of the list views\<close>

text \<open>
  The list views paginate with \<open>paginate_by = MAX_QUANTITY_POST\<close>: the framework's
  paginator without orphans, which always has a first page. Page \<open>number\<close> is the
  slice from \<open>(number - 1) * per_page\<close> of at most \<open>per_page\<close> rows, and a page
  number out of range is a not-found response.
\<close>

definition num_pages :: "nat \<Rightarrow> 'a list \<Rightarrow> nat" where
  "num_pages per_page object_list =
     (max 1 (length object_list) + per_page - 1) div per_page"

definition Paginator_page :: "nat \<Rightarrow> 'a list \<Rightarrow> nat \<Rightarrow> error + 'a list" where
  "Paginator_page per_page object_list number =
     (if number < 1 \<or> num_pages per_page object_list < number then Inl Http404
      else Inr (take per_page (drop ((number - 1) * per_page) object_list)))"

definition paginate_queryset :: "'a list \<Rightarrow> nat \<Rightarrow> error + 'a list" where
  "paginate_queryset queryset page = Paginator_page MAX_QUANTITY_POST queryset page"

definition IndexListView :: "database \<Rightarrow> datetime \<Rightarrow> nat \<Rightarrow> error + (post \<times> nat) list" where
  "IndexListView db now page = paginate_queryset (CommonListMixin_get_queryset db now) page"

definition CategoryPostsListView ::
  "database \<Rightarrow> datetime \<Rightarrow> string \<Rightarrow> nat \<Rightarrow> error + (post \<times> nat) list" where
  "CategoryPostsListView db now category_slug page =
     (case CategoryPostsListView_get_queryset db now category_slug of
        Inl e \<Rightarrow> Inl e
      | Inr queryset \<Rightarrow> paginate_queryset queryset page)"

definition ProfileListView ::
  "database \<Rightarrow> request_user \<Rightarrow> datetime \<Rightarrow> string \<Rightarrow> nat \<Rightarrow> error + (post \<times> nat) list" where
  "ProfileListView db usr now name page =
     (case ProfileListView_get_queryset db usr now name of
        Inl e \<Rightarrow> Inl e
      | Inr queryset \<Rightarrow> paginate_queryset queryset page)"

subsection \<open>Views that change the store\<close>

datatype http_method = GET | POST

text \<open>
  The targets of a redirect: the named routes of blog/urls.py with their arguments, the
  login page, and the URL the Post model declares for a row (models.py).
\<close>

datatype url = post_detail pk | profile string | login | post_absolute_url pk

datatype response = HttpResponseRedirect url | TemplateResponse string | Raise error

text \<open>
  blog/forms.py is not among the sources. A submitted form is taken as it reaches the
  view: whether it validates, and what saving it writes. A post form rewrites the fields
  of the post it is bound to; a comment form carries the text of the comment.
\<close>

record post_form =
  post_form_is_valid :: bool
  post_form_save :: "post \<Rightarrow> post"

record comment_form =
  comment_form_is_valid :: bool
  comment_form_text :: string

text \<open>\<open>str(request.user)\<close>, which the profile URL is built from.\<close>

fun user_str :: "request_user \<Rightarrow> string" where
  "user_str AnonymousUser = ''AnonymousUser''"
| "user_str (Authenticated u) = username u"

text \<open>The key the store gives to a new row of a table.\<close>

definition next_pk :: "pk list \<Rightarrow> pk" where
  "next_pk ks = Suc (fold max ks 0)"

text \<open>
  \<open>LoginRequiredMixin.dispatch\<close>: an anonymous request is sent to the login page, any
  other goes on to the handler of its method.
\<close>

fun LoginRequiredMixin_dispatch ::
  "request_user \<Rightarrow> database \<Rightarrow> (user \<Rightarrow> response \<times> database) \<Rightarrow> response \<times> database" where
  "LoginRequiredMixin_dispatch AnonymousUser db handler = (HttpResponseRedirect login, db)"
| "LoginRequiredMixin_dispatch (Authenticated u) db handler = handler u"

text \<open>
  \<open>PostVerifyMixin.dispatch\<close>: the post is fetched by the \<open>post_id\<close> of the path and its
  author compared with the requester before \<open>super().dispatch\<close>, the login check, runs.
\<close>

definition PostVerifyMixin_dispatch ::
  "database \<Rightarrow> request_user \<Rightarrow> pk \<Rightarrow> (post \<Rightarrow> user \<Rightarrow> response \<times> database)
     \<Rightarrow> response \<times> database" where
  "PostVerifyMixin_dispatch db usr post_id handler =
     (case get_object_or_404 (filter (\<lambda>p. post_pk p = post_id) (posts db)) of
        Inl e \<Rightarrow> (Raise e, db)
      | Inr p \<Rightarrow>
          if \<not> is_user usr (post_author p)
          then (HttpResponseRedirect (post_detail post_id), db)
          else LoginRequiredMixin_dispatch usr db (handler p))"

definition PostUpdateView ::
  "database \<Rightarrow> request_user \<Rightarrow> http_method \<Rightarrow> pk \<Rightarrow> post_form \<Rightarrow> response \<times> database" where
  "PostUpdateView db usr method post_id form =
     PostVerifyMixin_dispatch db usr post_id
       (\<lambda>p u. case method of
            GET \<Rightarrow> (TemplateResponse ''blog/create.html'', db)
          | POST \<Rightarrow>
              if post_form_is_valid form
              then (HttpResponseRedirect (post_absolute_url (post_pk p)),
                    db\<lparr>posts :=
                         map (\<lambda>q. if post_pk q = post_pk p
                                  then (post_form_save form p)\<lparr>post_pk := post_pk p\<rparr>
                                  else q) (posts db)\<rparr>)
              else (TemplateResponse ''blog/create.html'', db))"

text \<open>
  Deleting a post deletes its comments with it: a comment's parent post is required
  (section 3 of the specification).
\<close>

definition PostDeleteView ::
  "database \<Rightarrow> request_user \<Rightarrow> http_method \<Rightarrow> pk \<Rightarrow> response \<times> database" where
  "PostDeleteView db usr method post_id =
     PostVerifyMixin_dispatch db usr post_id
       (\<lambda>p u. case method of
            GET \<Rightarrow> (TemplateResponse ''blog/create.html'', db)
          | POST \<Rightarrow>
              (HttpResponseRedirect (profile (user_str usr)),
               db\<lparr>posts := filter (\<lambda>q. post_pk q \<noteq> post_pk p) (posts db),
                  comments := filter (\<lambda>c. comment_post c \<noteq> post_pk p) (comments db)\<rparr>))"

text \<open>
  \<open>CommentMixin.dispatch\<close>: the comment is fetched by the \<open>comment_id\<close> of the path alone;
  a requester who is not its author is redirected to the detail page of the
  \<open>post_id\<close> of the path.
\<close>

definition CommentMixin_dispatch ::
  "database \<Rightarrow> request_user \<Rightarrow> pk \<Rightarrow> pk \<Rightarrow> (comment \<Rightarrow> user \<Rightarrow> response \<times> database)
     \<Rightarrow> response \<times> database" where
  "CommentMixin_dispatch db usr post_id comment_id handler =
     (case get_object_or_404 (filter (\<lambda>c. comment_pk c = comment_id) (comments db)) of
        Inl e \<Rightarrow> (Raise e, db)
      | Inr c \<Rightarrow>
          if \<not> is_user usr (comment_author c)
          then (HttpResponseRedirect (post_detail post_id), db)
          else LoginRequiredMixin_dispatch usr db (handler c))"

definition CommentUpdateView ::
  "database \<Rightarrow> request_user \<Rightarrow> http_method \<Rightarrow> pk \<Rightarrow> pk \<Rightarrow> comment_form
     \<Rightarrow> response \<times> database" where
  "CommentUpdateView db usr method post_id comment_id form =
     CommentMixin_dispatch db usr post_id comment_id
       (\<lambda>c u. case method of
            GET \<Rightarrow> (TemplateResponse ''blog/comment.html'', db)
          | POST \<Rightarrow>
              if comment_form_is_valid form
              then (HttpResponseRedirect (post_detail post_id),
                    db\<lparr>comments :=
                         map (\<lambda>d. if comment_pk d = comment_pk c
                                  then c\<lparr>comment_text := comment_form_text form\<rparr>
                                  else d) (comments db)\<rparr>)
              else (TemplateResponse ''blog/comment.html'', db))"

definition CommentDeleteView ::
  "database \<Rightarrow> request_user \<Rightarrow> http_method \<Rightarrow> pk \<Rightarrow> pk \<Rightarrow> response \<times> database" where
  "CommentDeleteView db usr method post_id comment_id =
     CommentMixin_dispatch db usr post_id comment_id
       (\<lambda>c u. case method of
            GET \<Rightarrow> (TemplateResponse ''blog/comment.html'', db)
          | POST \<Rightarrow>
              (HttpResponseRedirect (post_detail post_id),
               db\<lparr>comments := filter (\<lambda>d. comment_pk d \<noteq> comment_pk c) (comments db)\<rparr>))"

text \<open>
  \<open>CommentCreateView\<close>: after the login check, a valid form is saved with the requester
  as author and the post with the \<open>post_id\<close> of the path as parent; the post is fetched
  from all posts.
\<close>

definition CommentCreateView ::
  "database \<Rightarrow> request_user \<Rightarrow> datetime \<Rightarrow> http_method \<Rightarrow> pk \<Rightarrow> comment_form
     \<Rightarrow> response \<times> database" where
  "CommentCreateView db usr now method post_id form =
     LoginRequiredMixin_dispatch usr db
       (\<lambda>u. case method of
            GET \<Rightarrow> (TemplateResponse ''blog/comment.html'', db)
          | POST \<Rightarrow>
              if comment_form_is_valid form
              then (case get_object_or_404
                           (filter (\<lambda>p. post_pk p = post_id) (posts db)) of
                      Inl e \<Rightarrow> (Raise e, db)
                    | Inr p \<Rightarrow>
                        (HttpResponseRedirect (post_detail post_id),
                         db\<lparr>comments := comments db @
                              [\<lparr>comment_pk = next_pk (map comment_pk (comments db)),
                                comment_post = post_pk p,
                                comment_author = user_pk u,
                                comment_text = comment_form_text form,
                                comment_created_at = now\<rparr>]\<rparr>))
              else (TemplateResponse ''blog/comment.html'', db))"

section \<open>The visibility rule in the words of the specification\<close>

text \<open>
  \<open>isPubliclyVisible(post, now)\<close> as section 4.1 of the specification words it, to be
  compared with the filters of the views: the post is published, its timestamp is not
  after \<open>now\<close>, and its category is null or published.
\<close>

definition spec_isPubliclyVisible :: "database \<Rightarrow> post \<Rightarrow> datetime \<Rightarrow> bool" where
  "spec_isPubliclyVisible db p now =
     (is_published p \<and> pub_date p \<le> now
      \<and> (post_category p = None
         \<or> (case related_category db p of None \<Rightarrow> False | Some c \<Rightarrow> category_is_published c)))"

section \<open>A small blog\<close>

text \<open>
  Two users, a published and an unpublished category, and six posts read at time 10: two
  visible ones (the second timestamped exactly 10), one without a category, one in the
  unpublished category, one dated in the future and one unpublished.
\<close>

definition alice :: user where
  "alice = \<lparr>user_pk = 1, username = ''alice''\<rparr>"

definition bob :: user where
  "bob = \<lparr>user_pk = 2, username = ''bob''\<rparr>"

definition travel :: category where
  "travel = \<lparr>category_pk = 1, category_title = ''Travel'', slug = ''travel'',
             category_is_published = True\<rparr>"

definition drafts :: category where
  "drafts = \<lparr>category_pk = 2, category_title = ''Drafts'', slug = ''drafts'',
             category_is_published = False\<rparr>"

definition mk_post :: "pk \<Rightarrow> pk \<Rightarrow> pk option \<Rightarrow> datetime \<Rightarrow> bool \<Rightarrow> post" where
  "mk_post k a c d b =
     \<lparr>post_pk = k, post_author = a, post_category = c, post_location = None,
      post_title = ''title'', post_text = ''text'', pub_date = d, is_published = b,
      post_created_at = 0\<rparr>"

definition post_visible :: post where
  "post_visible = mk_post 1 1 (Some 1) 5 True"

definition post_no_category :: post where
  "post_no_category = mk_post 2 2 None 5 True"

definition post_hidden_category :: post where
  "post_hidden_category = mk_post 3 2 (Some 2) 5 True"

definition post_now :: post where
  "post_now = mk_post 4 1 (Some 1) 10 True"

definition post_future :: post where
  "post_future = mk_post 5 1 (Some 1) 20 True"

definition post_unpublished :: post where
  "post_unpublished = mk_post 6 2 (Some 1) 5 False"

definition comment_by_bob :: comment where
  "comment_by_bob = \<lparr>comment_pk = 1, comment_post = 1, comment_author = 2,
                     comment_text = ''first'', comment_created_at = 6\<rparr>"

definition comment_by_alice :: comment where
  "comment_by_alice = \<lparr>comment_pk = 2, comment_post = 1, comment_author = 1,
                       comment_text = ''second'', comment_created_at = 7\<rparr>"

definition comment_on_hidden :: comment where
  "comment_on_hidden = \<lparr>comment_pk = 3, comment_post = 3, comment_author = 1,
                        comment_text = ''third'', comment_created_at = 8\<rparr>"

definition blog :: database where
  "blog = \<lparr>users = [alice, bob], categories = [travel, drafts],
           posts = [post_visible, post_no_category, post_hidden_category, post_now,
                    post_future, post_unpublished],
           comments = [comment_by_bob, comment_by_alice, comment_on_hidden]\<rparr>"

definition valid_comment_form :: comment_form where
  "valid_comment_form = \<lparr>comment_form_is_valid = True, comment_form_text = ''edited''\<rparr>"

definition valid_post_form :: post_form where
  "valid_post_form =
     \<lparr>post_form_is_valid = True, post_form_save = (\<lambda>p. p\<lparr>post_title := ''edited''\<rparr>)\<rparr>"

text \<open>A blog with 25 visible posts by one author, post \<open>k\<close> timestamped \<open>k\<close>.\<close>

definition busy_blog :: database where
  "busy_blog = \<lparr>users = [alice], categories = [travel],
                posts = map (\<lambda>k. mk_post k 1 (Some 1) (int k) True) [0..<25],
                comments = []\<rparr>"

section \<open>Lemmas about the queries\<close>

lemmas blog_defs = blog_def alice_def bob_def travel_def drafts_def mk_post_def post_visible_def
  post_no_category_def post_hidden_category_def post_now_def post_future_def post_unpublished_def
  comment_by_bob_def comment_by_alice_def comment_on_hidden_def

lemma filter_absent:
  "k \<notin> f ` set xs \<Longrightarrow> filter (\<lambda>y. f y = k) xs = []"
  by (induction xs) auto

lemma filter_unique:
  "distinct (map f xs) \<Longrightarrow> x \<in> set xs \<Longrightarrow> filter (\<lambda>y. f y = f x) xs = [x]"
proof (induction xs)
  case Nil
  then show ?case by simp
next
  case (Cons a xs)
  show ?case
  proof (cases "a = x")
    case True
    with Cons.prems have "f x \<notin> f ` set xs" by simp
    then have "filter (\<lambda>y. f y = f x) xs = []" by (rule filter_absent)
    with True show ?thesis by simp
  next
    case False
    with Cons.prems have "x \<in> set xs" "f a \<noteq> f x" by force+
    with Cons show ?thesis by simp
  qed
qed

lemma find_unique:
  "distinct (map f xs) \<Longrightarrow> x \<in> set xs \<Longrightarrow> find (\<lambda>y. f y = f x) xs = Some x"
  by (induction xs) force+

lemma get_by_key:
  assumes "distinct (map f xs)" and "x \<in> set xs"
  shows "get_object_or_404 (filter (\<lambda>y. f y = f x) xs) = Inr x"
  using filter_unique [OF assms] by simp

lemma get_by_key_and:
  assumes "distinct (map f xs)" and "x \<in> set xs"
  shows "get_object_or_404 (filter (\<lambda>y. P y \<and> f y = f x) xs) = (if P x then Inr x else Inl Http404)"
proof -
  have "filter (\<lambda>y. P y \<and> f y = f x) xs = filter P (filter (\<lambda>y. f y = f x) xs)"
    by (simp add: conj_commute)
  then show ?thesis using filter_unique [OF assms] by simp
qed

lemma get_by_key_filtered:
  assumes "distinct (map f xs)" and "x \<in> set xs"
  shows "get_object_or_404 (filter (\<lambda>y. f y = f x) (filter P xs)) = (if P x then Inr x else Inl Http404)"
proof -
  have "filter (\<lambda>y. f y = f x) (filter P xs) = filter P (filter (\<lambda>y. f y = f x) xs)"
    by (simp add: conj_commute)
  then show ?thesis using filter_unique [OF assms] by simp
qed

lemma get_absent:
  "k \<notin> f ` set xs \<Longrightarrow> get_object_or_404 (filter (\<lambda>y. P y \<and> f y = k) xs) = Inl Http404"
  "k \<notin> f ` set xs \<Longrightarrow> get_object_or_404 (filter (\<lambda>y. f y = k) (filter P xs)) = Inl Http404"
proof -
  assume a: "k \<notin> f ` set xs"
  have "filter (\<lambda>y. P y \<and> f y = k) xs = filter P (filter (\<lambda>y. f y = k) xs)"
    by (simp add: conj_commute)
  then show "get_object_or_404 (filter (\<lambda>y. P y \<and> f y = k) xs) = Inl Http404"
    using filter_absent [OF a] by simp
  have "filter (\<lambda>y. f y = k) (filter P xs) = filter P (filter (\<lambda>y. f y = k) xs)"
    by (simp add: conj_commute)
  then show "get_object_or_404 (filter (\<lambda>y. f y = k) (filter P xs)) = Inl Http404"
    using filter_absent [OF a] by simp
qed

lemma Count_comments_eq:
  "Count_comments db p = length (filter (\<lambda>c. comment_post c = post_pk p) (comments db))"
  unfolding Count_comments_def comments_join_def
  by (cases "filter (\<lambda>c. comment_post c = post_pk p) (comments db)")
     (simp_all add: filter_map comp_def)

lemma lookup_category_is_published_iff:
  "lookup_category_is_published db p \<longleftrightarrow>
     (\<exists>c. related_category db p = Some c \<and> category_is_published c)"
  by (simp add: lookup_category_is_published_def split: option.splits)

lemma no_category_not_published:
  "post_category p = None \<Longrightarrow> \<not> lookup_category_is_published db p"
  by (simp add: lookup_category_is_published_def related_category_def)

lemma get_post_data_filter_eq:
  "get_post_data_filter db now p = CommonListMixin_filter db now p"
  by (auto simp: get_post_data_filter_def CommonListMixin_filter_def)

lemma CommonListMixin_filter_iff:
  "CommonListMixin_filter db now p \<longleftrightarrow>
     is_published p \<and> pub_date p \<le> now
     \<and> (\<exists>c. related_category db p = Some c \<and> category_is_published c)"
  by (auto simp: CommonListMixin_filter_def lookup_category_is_published_iff)

lemma get_post_data_filter_iff:
  "get_post_data_filter db now p \<longleftrightarrow>
     is_published p \<and> pub_date p \<le> now
     \<and> (\<exists>c. related_category db p = Some c \<and> category_is_published c)"
  by (simp add: get_post_data_filter_eq CommonListMixin_filter_iff)

lemma PostDetailView_filter_eq:
  "PostDetailView_filter db usr now p \<longleftrightarrow>
     is_user usr (post_author p) \<or> get_post_data_filter db now p"
  by (simp add: PostDetailView_filter_def get_post_data_filter_def)

lemma set_order_by [simp]: "set (order_by_pub_date_desc rows) = set rows"
  by (simp add: order_by_pub_date_desc_def)

lemma mset_order_by [simp]: "mset (order_by_pub_date_desc rows) = mset rows"
  by (simp add: order_by_pub_date_desc_def)

lemma length_order_by [simp]: "length (order_by_pub_date_desc rows) = length rows"
  by (simp add: order_by_pub_date_desc_def)

lemma sorted_order_by:
  "sorted_wrt (\<lambda>r s. pub_date (fst s) \<le> pub_date (fst r)) (order_by_pub_date_desc rows)"
proof -
  have "sorted (map (\<lambda>r. - pub_date (fst r)) (order_by_pub_date_desc rows))"
    by (simp add: order_by_pub_date_desc_def)
  then show ?thesis by (simp add: sorted_map)
qed

lemma map_fst_annotate [simp]: "map fst (annotate_comment_count db ps) = ps"
  by (simp add: annotate_comment_count_def comp_def)

lemma annotate_row:
  "(p, n) \<in> set (annotate_comment_count db ps) \<longleftrightarrow>
     p \<in> set ps \<and> n = length (filter (\<lambda>c. comment_post c = post_pk p) (comments db))"
  by (auto simp: annotate_comment_count_def Count_comments_eq)

lemma CommonListMixin_row:
  "(p, n) \<in> set (CommonListMixin_get_queryset db now) \<longleftrightarrow>
     p \<in> set (posts db) \<and> CommonListMixin_filter db now p
     \<and> n = length (filter (\<lambda>c. comment_post c = post_pk p) (comments db))"
  by (auto simp: CommonListMixin_get_queryset_def annotate_row)

lemma CommonListMixin_posts:
  "mset (map fst (CommonListMixin_get_queryset db now))
     = mset (filter (CommonListMixin_filter db now) (posts db))"
proof -
  have "mset (map fst (order_by_pub_date_desc rows)) = mset (map fst rows)" for rows :: "(post \<times> nat) list"
    by (metis mset_map mset_order_by)
  then show ?thesis
    unfolding CommonListMixin_get_queryset_def by (simp only: map_fst_annotate)
qed


lemma num_pages_25: "length xs = 25 \<Longrightarrow> num_pages 10 xs = 3"
  by (simp add: num_pages_def)

lemma page_valid:
  "1 \<le> n \<Longrightarrow> n \<le> num_pages k xs \<Longrightarrow> Paginator_page k xs n = Inr (take k (drop ((n - 1) * k) xs))"
  by (simp add: Paginator_page_def)

lemma page_invalid:
  "n < 1 \<or> num_pages k xs < n \<Longrightarrow> Paginator_page k xs n = Inl Http404"
  by (simp add: Paginator_page_def)

lemma page_length:
  "Paginator_page k xs n = Inr ys \<Longrightarrow> length ys \<le> k"
  by (auto simp: Paginator_page_def split: if_splits)

lemma full_page:
  assumes "0 < k" "1 \<le> n" "n < num_pages k xs"
  shows "length (take k (drop ((n - 1) * k) xs)) = k"
proof -
  from assms(3) have "Suc n \<le> (max 1 (length xs) + k - 1) div k"
    by (simp add: num_pages_def)
  with assms(1) have "Suc n * k \<le> max 1 (length xs) + k - 1"
    by (simp add: less_eq_div_iff_mult_less_eq)
  then have a: "n * k + k \<le> max 1 (length xs) + k - 1" by simp
  from assms have "1 \<le> n * k" by simp
  with a have b: "n * k \<le> length xs" by (simp add: max_def split: if_splits)
  from assms(2) obtain m where n: "n = Suc m" by (cases n) auto
  with b have "m * k + k \<le> length xs" by simp
  then show ?thesis using n by simp
qed

section \<open>The claims\<close>

text \<open>
  C1 (as amended). The filter of the listing query, the filter of \<open>get_post_data\<close> and the
  public branch of the detail query are the same predicate: it holds iff the post is
  published, its timestamp is at or before \<open>now\<close> (a post timestamped exactly \<open>now\<close> is
  visible), and the post has a category row that is published. A post whose category is
  null never satisfies it.
\<close>

theorem public_filter_requires_category:
  "(CommonListMixin_filter db now p \<longleftrightarrow>
      is_published p \<and> pub_date p \<le> now
      \<and> (\<exists>c. related_category db p = Some c \<and> category_is_published c))
   \<and> (get_post_data_filter db now p \<longleftrightarrow> CommonListMixin_filter db now p)
   \<and> (PostDetailView_filter db usr now p \<longleftrightarrow>
        is_user usr (post_author p) \<or> CommonListMixin_filter db now p)
   \<and> (post_category p = None \<longrightarrow> \<not> CommonListMixin_filter db now p)"
proof -
  have a: "CommonListMixin_filter db now p \<longleftrightarrow>
      is_published p \<and> pub_date p \<le> now
      \<and> (\<exists>c. related_category db p = Some c \<and> category_is_published c)"
    by (auto simp: CommonListMixin_filter_def lookup_category_is_published_iff)
  have b: "PostDetailView_filter db usr now p \<longleftrightarrow>
        is_user usr (post_author p) \<or> CommonListMixin_filter db now p"
    by (simp add: PostDetailView_filter_eq get_post_data_filter_eq)
  have c: "post_category p = None \<longrightarrow> \<not> CommonListMixin_filter db now p"
    by (simp add: CommonListMixin_filter_def no_category_not_published)
  from a b c get_post_data_filter_eq show ?thesis by blast
qed

text \<open>
  C1, at a concrete input: in the small blog read at time 10, the post timestamped 10 in
  the published category passes the filter and the post without a category does not.
\<close>

theorem public_filter_requires_category_witness:
  "post_category post_no_category = None
   \<and> \<not> CommonListMixin_filter blog 10 post_no_category
   \<and> CommonListMixin_filter blog 10 post_now
   \<and> related_category blog post_now = Some travel"
proof -
  have a: "post_category post_no_category = None" by (simp add: blog_defs)
  have b: "related_category blog post_now = Some travel"
    by (simp add: related_category_def blog_defs)
  have c: "is_published post_now \<and> pub_date post_now \<le> 10 \<and> category_is_published travel"
    by (simp add: blog_defs)
  from public_filter_requires_category [of blog 10 post_no_category AnonymousUser]
       public_filter_requires_category [of blog 10 post_now AnonymousUser] a b c
  show ?thesis by blast
qed

text \<open>
  C1 as stated fails: the post without a category is published and timestamped 5, so the
  rule in the words of the specification holds for it at time 10, but neither filter
  accepts it, the detail query answers not-found and the listing leaves it out.
\<close>

theorem null_category_counterexample:
  "spec_isPubliclyVisible blog post_no_category 10
   \<and> \<not> CommonListMixin_filter blog 10 post_no_category
   \<and> \<not> get_post_data_filter blog 10 post_no_category
   \<and> PostDetailView_get_object blog AnonymousUser 10 (post_pk post_no_category) = Inl Http404
   \<and> post_no_category \<notin> fst ` set (CommonListMixin_get_queryset blog 10)"
  by (simp add: spec_isPubliclyVisible_def CommonListMixin_filter_def get_post_data_filter_def
      PostDetailView_get_object_def get_post_data_def CommonListMixin_get_queryset_def
      annotate_comment_count_def
      lookup_category_is_published_def related_category_def blog_defs)

text \<open>
  C3 (as amended). Where primary keys are unique, the detail operation on the key of a
  stored post returns that post iff the viewer is its author, or the post is published,
  its timestamp is at or before \<open>now\<close>, and it has a category row that is published;
  otherwise the answer is not-found. A key that no post has is answered with the same
  not-found; an anonymous viewer of an unpublished post gets not-found; and a post whose
  category is null is not found by anyone but its author.
\<close>

theorem post_detail_author_or_public:
  assumes "distinct (map post_pk (posts db))"
  shows "(\<forall>p \<in> set (posts db).
            PostDetailView_get_object db usr now (post_pk p) =
              (if is_user usr (post_author p)
                  \<or> (is_published p \<and> pub_date p \<le> now
                     \<and> (\<exists>c. related_category db p = Some c \<and> category_is_published c))
               then Inr p else Inl Http404))
         \<and> (\<forall>ident. ident \<notin> post_pk ` set (posts db) \<longrightarrow>
               PostDetailView_get_object db usr now ident = Inl Http404)
         \<and> (\<forall>p \<in> set (posts db). \<not> is_published p \<longrightarrow>
               PostDetailView_get_object db AnonymousUser now (post_pk p) = Inl Http404)
         \<and> (\<forall>p \<in> set (posts db).
               post_category p = None \<and> \<not> is_user usr (post_author p) \<longrightarrow>
               PostDetailView_get_object db usr now (post_pk p) = Inl Http404)"
proof -
  have present: "PostDetailView_get_object db v now (post_pk p) =
      (if is_user v (post_author p)
          \<or> (is_published p \<and> pub_date p \<le> now
             \<and> (\<exists>c. related_category db p = Some c \<and> category_is_published c))
       then Inr p else Inl Http404)"
    if "p \<in> set (posts db)" for p v
  proof (cases v)
    case AnonymousUser
    then show ?thesis
      using get_by_key_filtered [OF assms that, of "get_post_data_filter db now"]
      by (simp add: PostDetailView_get_object_def get_post_data_def get_post_data_filter_iff)
  next
    case (Authenticated u)
    then show ?thesis
      using get_by_key_and [OF assms that, of "PostDetailView_filter db v now"]
      by (simp add: PostDetailView_get_object_def PostDetailView_filter_eq
          get_post_data_filter_iff)
  qed
  have absent: "PostDetailView_get_object db usr now ident = Inl Http404"
    if "ident \<notin> post_pk ` set (posts db)" for ident
    using get_absent [OF that]
    by (cases usr) (simp_all add: PostDetailView_get_object_def get_post_data_def)
  have hidden: "PostDetailView_get_object db AnonymousUser now (post_pk p) = Inl Http404"
    if "p \<in> set (posts db)" "\<not> is_published p" for p
    using present [OF that(1), of AnonymousUser] that(2) by simp
  have null: "PostDetailView_get_object db usr now (post_pk p) = Inl Http404"
    if "p \<in> set (posts db)" "post_category p = None \<and> \<not> is_user usr (post_author p)" for p
    using present [OF that(1), of usr] that(2) by (simp add: related_category_def)
  from present absent hidden null show ?thesis by blast
qed

text \<open>
  C3, at a concrete input: the unpublished post of the small blog is returned to its
  author and is not found by another user or by an anonymous viewer; the post timestamped
  exactly 10 is returned to an anonymous viewer at time 10; the post without a category is
  returned to its author and not found by another user.
\<close>

theorem post_detail_author_or_public_witness:
  "distinct (map post_pk (posts blog))
   \<and> PostDetailView_get_object blog (Authenticated bob) 10 (post_pk post_unpublished)
       = Inr post_unpublished
   \<and> PostDetailView_get_object blog (Authenticated alice) 10 (post_pk post_unpublished)
       = Inl Http404
   \<and> PostDetailView_get_object blog AnonymousUser 10 (post_pk post_unpublished) = Inl Http404
   \<and> PostDetailView_get_object blog AnonymousUser 10 (post_pk post_now) = Inr post_now
   \<and> PostDetailView_get_object blog AnonymousUser 10 7 = Inl Http404
   \<and> PostDetailView_get_object blog (Authenticated bob) 10 (post_pk post_no_category)
       = Inr post_no_category
   \<and> PostDetailView_get_object blog (Authenticated alice) 10 (post_pk post_no_category)
       = Inl Http404"
proof -
  have d: "distinct (map post_pk (posts blog))" by (simp add: blog_defs)
  have m: "post_unpublished \<in> set (posts blog)" "post_now \<in> set (posts blog)"
    "post_no_category \<in> set (posts blog)"
    by (simp_all add: blog_def)
  have n: "7 \<notin> post_pk ` set (posts blog)" by (simp add: blog_defs)
  have f: "\<not> is_published post_unpublished"
    "is_published post_now \<and> pub_date post_now \<le> 10
       \<and> (\<exists>c. related_category blog post_now = Some c \<and> category_is_published c)"
    "post_category post_no_category = None"
    "\<not> (\<exists>c. related_category blog post_no_category = Some c \<and> category_is_published c)"
    by (simp_all add: related_category_def blog_defs)
  have u: "user_pk bob = post_author post_unpublished"
    "user_pk alice \<noteq> post_author post_unpublished"
    "user_pk bob = post_author post_no_category"
    "user_pk alice \<noteq> post_author post_no_category"
    by (simp_all add: blog_defs)
  from post_detail_author_or_public [OF d, of "Authenticated bob" 10]
       post_detail_author_or_public [OF d, of "Authenticated alice" 10]
       post_detail_author_or_public [OF d, of AnonymousUser 10] d m n f u
  show ?thesis by simp
qed

text \<open>
  C3 as stated fails: the post of the small blog without a category is published and
  timestamped 5, so at time 10 it is publicly visible in the words of the specification;
  alice is not its author, and neither she nor an anonymous viewer gets it from the detail
  operation.
\<close>

theorem post_detail_null_category_counterexample:
  "post_no_category \<in> set (posts blog)
   \<and> spec_isPubliclyVisible blog post_no_category 10
   \<and> \<not> is_user (Authenticated alice) (post_author post_no_category)
   \<and> PostDetailView_get_object blog (Authenticated alice) 10 (post_pk post_no_category)
       = Inl Http404
   \<and> PostDetailView_get_object blog AnonymousUser 10 (post_pk post_no_category)
       = Inl Http404"
  by (simp add: spec_isPubliclyVisible_def PostDetailView_get_object_def get_post_data_def
      PostDetailView_filter_def get_post_data_filter_def lookup_category_is_published_def
      related_category_def blog_defs)

lemma page_subset:
  "paginate_queryset qs page = Inr rows \<Longrightarrow> set rows \<subseteq> set qs"
  by (auto simp: paginate_queryset_def Paginator_page_def split: if_splits
      dest: in_set_takeD in_set_dropD)

lemma distinct_key_eq:
  "distinct (map f xs) \<Longrightarrow> a \<in> set xs \<Longrightarrow> b \<in> set xs \<Longrightarrow> f a = f b \<Longrightarrow> a = b"
  by (meson distinct_map inj_onD)

lemma find_in_set: "find P xs = Some a \<Longrightarrow> a \<in> set xs \<and> P a"
  by (induction xs) (auto split: if_splits)

lemma lookup_author_username_iff:
  assumes "distinct (map user_pk (users db))" "distinct (map username (users db))"
    and "u \<in> set (users db)"
  shows "lookup_author_username db (username u) p \<longleftrightarrow> post_author p = user_pk u"
proof
  assume "lookup_author_username db (username u) p"
  then obtain a where a: "related_author db p = Some a" "username a = username u"
    by (auto simp: lookup_author_username_def split: option.splits)
  then have "a \<in> set (users db)" "user_pk a = post_author p"
    using find_in_set [of "\<lambda>v. user_pk v = post_author p" "users db" a]
    by (simp_all add: related_author_def)
  moreover from this(1) a(2) assms(2,3) have "a = u" by (rule_tac distinct_key_eq)
  ultimately show "post_author p = user_pk u" by simp
next
  assume "post_author p = user_pk u"
  then have "related_author db p = Some u"
    using find_unique [OF assms(1,3)] by (simp add: related_author_def)
  then show "lookup_author_username db (username u) p"
    by (simp add: lookup_author_username_def)
qed

lemma profile_owner:
  assumes "distinct (map username (users db))" "u \<in> set (users db)"
  shows "get_object_or_404 (filter (\<lambda>v. username v = username u) (users db)) = Inr u"
  using assms by (rule get_by_key)

lemma profile_row:
  assumes "ProfileListView_get_queryset db usr now name = Inr rows" "(p, n) \<in> set rows"
  shows "n = length (filter (\<lambda>c. comment_post c = post_pk p) (comments db))"
  using assms
  by (auto simp: ProfileListView_get_queryset_def annotate_row CommonListMixin_row
      split: sum.splits if_splits)

lemma category_row:
  assumes "CategoryPostsListView_get_queryset db now s = Inr rows" "(p, n) \<in> set rows"
  shows "(p, n) \<in> set (CommonListMixin_get_queryset db now)"
  using assms
  by (auto simp: CategoryPostsListView_get_queryset_def split: sum.splits)

text \<open>
  C8. On every page of the index, of a category page and of a profile page (for any viewer,
  the owner included), the count annotated on a post is the number of all comments in the
  store whose parent post is that post: no condition on the comment's author or on anything
  else about the comment enters the count.
\<close>

theorem comment_count_is_total:
  "(\<forall>page rows p n. IndexListView db now page = Inr rows \<and> (p, n) \<in> set rows \<longrightarrow>
      n = length (filter (\<lambda>c. comment_post c = post_pk p) (comments db)))
   \<and> (\<forall>s page rows p n.
         CategoryPostsListView db now s page = Inr rows \<and> (p, n) \<in> set rows \<longrightarrow>
           n = length (filter (\<lambda>c. comment_post c = post_pk p) (comments db)))
   \<and> (\<forall>usr name page rows p n.
         ProfileListView db usr now name page = Inr rows \<and> (p, n) \<in> set rows \<longrightarrow>
           n = length (filter (\<lambda>c. comment_post c = post_pk p) (comments db)))"
proof (intro conjI allI impI)
  fix page rows p n
  assume "IndexListView db now page = Inr rows \<and> (p, n) \<in> set rows"
  then have "(p, n) \<in> set (CommonListMixin_get_queryset db now)"
    using page_subset by (fastforce simp: IndexListView_def)
  then show "n = length (filter (\<lambda>c. comment_post c = post_pk p) (comments db))"
    by (simp add: CommonListMixin_row)
next
  fix s page rows p n
  assume a: "CategoryPostsListView db now s page = Inr rows \<and> (p, n) \<in> set rows"
  then obtain qs where qs: "CategoryPostsListView_get_queryset db now s = Inr qs"
    "paginate_queryset qs page = Inr rows"
    by (auto simp: CategoryPostsListView_def split: sum.splits)
  with a have "(p, n) \<in> set qs" using page_subset by fastforce
  with qs(1) have "(p, n) \<in> set (CommonListMixin_get_queryset db now)" by (rule category_row)
  then show "n = length (filter (\<lambda>c. comment_post c = post_pk p) (comments db))"
    by (simp add: CommonListMixin_row)
next
  fix usr name page rows p n
  assume a: "ProfileListView db usr now name page = Inr rows \<and> (p, n) \<in> set rows"
  then obtain qs where qs: "ProfileListView_get_queryset db usr now name = Inr qs"
    "paginate_queryset qs page = Inr rows"
    by (auto simp: ProfileListView_def split: sum.splits)
  with a have "(p, n) \<in> set qs" using page_subset by fastforce
  with qs(1) show "n = length (filter (\<lambda>c. comment_post c = post_pk p) (comments db))"
    by (rule profile_row)
qed

lemma blog_index: "CommonListMixin_get_queryset blog 10 = [(post_now, 0), (post_visible, 2)]"
  by (simp add: CommonListMixin_get_queryset_def order_by_pub_date_desc_def
      annotate_comment_count_def CommonListMixin_filter_def lookup_category_is_published_def
      related_category_def Count_comments_eq blog_defs)

lemma blog_index_page: "IndexListView blog 10 1 = Inr [(post_now, 0), (post_visible, 2)]"
  by (simp add: IndexListView_def paginate_queryset_def Paginator_page_def num_pages_def
      MAX_QUANTITY_POST_def blog_index)

text \<open>
  C8, at a concrete input: the first index page of the small blog at time 10 lists the
  visible post with count 2, the number of its comments, written by two different users.
\<close>

theorem comment_count_is_total_witness:
  "IndexListView blog 10 1 = Inr [(post_now, 0), (post_visible, 2)]
   \<and> (post_visible, 2::nat) \<in> set [(post_now, 0), (post_visible, 2)]
   \<and> (2::nat) = length (filter (\<lambda>c. comment_post c = post_pk post_visible) (comments blog))"
proof -
  have m: "(post_visible, 2) \<in> set [(post_now, 0::nat), (post_visible, 2)]" by simp
  from comment_count_is_total [of blog 10] blog_index_page m
  have "(2::nat) = length (filter (\<lambda>c. comment_post c = post_pk post_visible) (comments blog))"
    by blast
  with blog_index_page m show ?thesis by blast
qed

text \<open>
  C5. Where user keys and usernames are unique, the profile query of a stored user, asked
  by that user, returns the posts of the store whose author is that user, all of them and
  no others, whatever their publication flag, timestamp and category, latest first, each
  with the number of all its comments. Neither \<open>now\<close> nor the public filter enters.
\<close>

theorem own_profile_lists_all_posts:
  assumes "distinct (map user_pk (users db))" "distinct (map username (users db))"
    and "u \<in> set (users db)"
  shows "ProfileListView_get_queryset db (Authenticated u) now (username u) =
           Inr (order_by_pub_date_desc (annotate_comment_count db
                  (filter (\<lambda>p. post_author p = user_pk u) (posts db))))
         \<and> (\<forall>p n. (p, n) \<in> set (order_by_pub_date_desc (annotate_comment_count db
                      (filter (\<lambda>p. post_author p = user_pk u) (posts db)))) \<longleftrightarrow>
               p \<in> set (posts db) \<and> post_author p = user_pk u
               \<and> n = length (filter (\<lambda>c. comment_post c = post_pk p) (comments db)))"
proof -
  have "filter (lookup_author_username db (username u)) (posts db)
      = filter (\<lambda>p. post_author p = user_pk u) (posts db)"
    using lookup_author_username_iff [OF assms] by (simp cong: filter_cong)
  then have "ProfileListView_get_queryset db (Authenticated u) now (username u) =
           Inr (order_by_pub_date_desc (annotate_comment_count db
                  (filter (\<lambda>p. post_author p = user_pk u) (posts db))))"
    using profile_owner [OF assms(2,3)] by (simp add: ProfileListView_get_queryset_def)
  then show ?thesis by (simp add: annotate_row)
qed

lemma blog_own_profile:
  "order_by_pub_date_desc (annotate_comment_count blog
      (filter (\<lambda>p. post_author p = user_pk bob) (posts blog)))
    = [(post_no_category, 0), (post_hidden_category, 1), (post_unpublished, 0)]"
  by (simp add: order_by_pub_date_desc_def annotate_comment_count_def Count_comments_eq blog_defs)

text \<open>
  C5, at a concrete input: bob's own profile in the small blog lists his post without a
  category, his post in the unpublished category and his unpublished post.
\<close>

theorem own_profile_lists_all_posts_witness:
  "distinct (map user_pk (users blog)) \<and> distinct (map username (users blog))
   \<and> bob \<in> set (users blog)
   \<and> ProfileListView_get_queryset blog (Authenticated bob) 10 (username bob) =
       Inr [(post_no_category, 0), (post_hidden_category, 1), (post_unpublished, 0)]"
proof -
  have d: "distinct (map user_pk (users blog))" "distinct (map username (users blog))"
    "bob \<in> set (users blog)"
    by (simp_all add: blog_defs)
  from own_profile_lists_all_posts [OF d, of 10] d blog_own_profile show ?thesis by simp
qed


lemma related_category_unique:
  assumes "distinct (map category_pk (categories db))" "c \<in> set (categories db)"
    and "post_category p = Some (category_pk c)"
  shows "related_category db p = Some c"
  using find_unique [OF assms(1,2)] assms(3) by (simp add: related_category_def)

lemma unpublished_category_404:
  assumes "distinct (map slug (categories db))" "c \<in> set (categories db)"
    and "\<not> category_is_published c"
  shows "CategoryPostsListView_get_queryset db now (slug c) = Inl Http404"
proof -
  have "filter (\<lambda>d. slug d = slug c \<and> category_is_published d = True) (categories db)
      = filter category_is_published (filter (\<lambda>d. slug d = slug c) (categories db))"
    by (simp add: conj_commute)
  also have "\<dots> = []" using filter_unique [OF assms(1,2)] assms(3) by simp
  finally show ?thesis by (simp add: CategoryPostsListView_get_queryset_def)
qed

text \<open>
  C7. Where keys and slugs are unique, a stored post whose category exists and is not
  published is on no page of the index and on no page of any category, whatever its own
  flag and timestamp; the page of its own category is a not-found response; and the detail
  operation returns the post to its author.
\<close>

theorem unpublished_category_hides_post:
  assumes "distinct (map post_pk (posts db))"
    and "distinct (map category_pk (categories db))" "distinct (map slug (categories db))"
    and "p \<in> set (posts db)" "c \<in> set (categories db)"
    and "post_category p = Some (category_pk c)" "\<not> category_is_published c"
  shows "p \<notin> fst ` set (CommonListMixin_get_queryset db now)
         \<and> (\<forall>page rows. IndexListView db now page = Inr rows \<longrightarrow> p \<notin> fst ` set rows)
         \<and> (\<forall>s page rows. CategoryPostsListView db now s page = Inr rows \<longrightarrow> p \<notin> fst ` set rows)
         \<and> (\<forall>page. CategoryPostsListView db now (slug c) page = Inl Http404)
         \<and> (\<forall>a. user_pk a = post_author p \<longrightarrow>
               PostDetailView_get_object db (Authenticated a) now (post_pk p) = Inr p)"
proof -
  have "related_category db p = Some c"
    using assms(2,5,6) by (rule related_category_unique)
  with assms(7) have hidden: "\<not> CommonListMixin_filter db now p"
    by (simp add: CommonListMixin_filter_def lookup_category_is_published_def)
  then have a: "p \<notin> fst ` set (CommonListMixin_get_queryset db now)"
    by (auto simp: CommonListMixin_row)
  have b: "p \<notin> fst ` set rows" if "IndexListView db now page = Inr rows" for page rows
    using that a page_subset [of "CommonListMixin_get_queryset db now" page rows]
    by (auto simp: IndexListView_def)
  have c: "p \<notin> fst ` set rows" if "CategoryPostsListView db now s page = Inr rows"
    for s page rows
  proof -
    from that obtain qs where qs: "CategoryPostsListView_get_queryset db now s = Inr qs"
      "paginate_queryset qs page = Inr rows"
      by (auto simp: CategoryPostsListView_def split: sum.splits)
    from qs(1) have "set qs \<subseteq> set (CommonListMixin_get_queryset db now)"
      by (auto simp: CategoryPostsListView_get_queryset_def split: sum.splits)
    with page_subset [OF qs(2)] a show ?thesis by auto
  qed
  have d: "CategoryPostsListView db now (slug c) page = Inl Http404" for page
    using unpublished_category_404 [OF assms(3,5,7)] by (simp add: CategoryPostsListView_def)
  have e: "PostDetailView_get_object db (Authenticated a) now (post_pk p) = Inr p"
    if "user_pk a = post_author p" for a
    using get_by_key_and [OF assms(1,4), of "PostDetailView_filter db (Authenticated a) now"] that
    by (simp add: PostDetailView_get_object_def PostDetailView_filter_def)
  from a b c d e show ?thesis by blast
qed

text \<open>
  C7, at a concrete input: the post of the small blog in the unpublished category is
  published and timestamped in the past, is missing from the listing, its category page is
  not found, and its author bob gets it from the detail operation.
\<close>

theorem unpublished_category_hides_post_witness:
  "distinct (map post_pk (posts blog)) \<and> distinct (map category_pk (categories blog))
   \<and> distinct (map slug (categories blog)) \<and> post_hidden_category \<in> set (posts blog)
   \<and> drafts \<in> set (categories blog)
   \<and> post_category post_hidden_category = Some (category_pk drafts)
   \<and> \<not> category_is_published drafts
   \<and> is_published post_hidden_category \<and> pub_date post_hidden_category \<le> 10
   \<and> post_hidden_category \<notin> fst ` set (CommonListMixin_get_queryset blog 10)
   \<and> CategoryPostsListView blog 10 (slug drafts) 1 = Inl Http404
   \<and> PostDetailView_get_object blog (Authenticated bob) 10 (post_pk post_hidden_category)
       = Inr post_hidden_category"
proof -
  have h: "distinct (map post_pk (posts blog))" "distinct (map category_pk (categories blog))"
    "distinct (map slug (categories blog))" "post_hidden_category \<in> set (posts blog)"
    "drafts \<in> set (categories blog)"
    "post_category post_hidden_category = Some (category_pk drafts)"
    "\<not> category_is_published drafts"
    by (simp_all add: blog_defs)
  have k: "is_published post_hidden_category" "pub_date post_hidden_category \<le> 10"
    "user_pk bob = post_author post_hidden_category"
    by (simp_all add: blog_defs)
  from unpublished_category_hides_post [OF h, of 10] h k show ?thesis by blast
qed

lemma index_page_valid:
  "1 \<le> page \<Longrightarrow> page \<le> num_pages 10 (CommonListMixin_get_queryset db now) \<Longrightarrow>
     IndexListView db now page =
       Inr (take 10 (drop ((page - 1) * 10) (CommonListMixin_get_queryset db now)))"
  by (simp add: IndexListView_def paginate_queryset_def MAX_QUANTITY_POST_def page_valid)

lemma index_page_invalid:
  "page < 1 \<or> num_pages 10 (CommonListMixin_get_queryset db now) < page \<Longrightarrow>
     IndexListView db now page = Inl Http404"
  by (simp add: IndexListView_def paginate_queryset_def MAX_QUANTITY_POST_def page_invalid)

lemma length_CommonListMixin:
  "length (CommonListMixin_get_queryset db now)
     = length (filter (CommonListMixin_filter db now) (posts db))"
  by (simp add: CommonListMixin_get_queryset_def annotate_comment_count_def)

lemma sorted_CommonListMixin:
  "sorted_wrt (\<lambda>r s. pub_date (fst s) \<le> pub_date (fst r)) (CommonListMixin_get_queryset db now)"
  by (simp add: CommonListMixin_get_queryset_def sorted_order_by)

lemma filter_CommonListMixin:
  "filter (CommonListMixin_filter db now) (posts db)
     = filter (\<lambda>p. is_published p \<and> pub_date p \<le> now
                 \<and> (\<exists>c. related_category db p = Some c \<and> category_is_published c))
         (posts db)"
  by (simp add: CommonListMixin_filter_iff cong: filter_cong)

text \<open>
  C6 (as amended). The index query returns, each once and latest publication timestamp
  first, the stored posts that are published, timestamped at or before \<open>now\<close>, and have a
  category row that is published; a post whose category is null is not among them. The
  index view cuts that sequence into pages of 10: page \<open>n\<close> is the rows from
  \<open>(n - 1) * 10\<close> on, at most 10 of them; every page before the last has exactly 10; a
  page number outside \<open>1 .. num_pages\<close> is a not-found response. When 25 posts meet the
  condition there are the three pages of 10, 10 and 5 rows, which together are the whole
  sequence in order, and no fourth page.
\<close>

theorem index_sorted_and_paginated:
  "mset (map fst (CommonListMixin_get_queryset db now))
     = mset (filter (\<lambda>p. is_published p \<and> pub_date p \<le> now
                 \<and> (\<exists>c. related_category db p = Some c \<and> category_is_published c))
               (posts db))
   \<and> (\<forall>p \<in> set (posts db). post_category p = None \<longrightarrow>
         p \<notin> fst ` set (CommonListMixin_get_queryset db now))
   \<and> sorted_wrt (\<lambda>r s. pub_date (fst s) \<le> pub_date (fst r))
        (CommonListMixin_get_queryset db now)
   \<and> (\<forall>page. 1 \<le> page \<and> page \<le> num_pages 10 (CommonListMixin_get_queryset db now) \<longrightarrow>
         IndexListView db now page =
           Inr (take 10 (drop ((page - 1) * 10) (CommonListMixin_get_queryset db now))))
   \<and> (\<forall>page. 1 \<le> page \<and> page < num_pages 10 (CommonListMixin_get_queryset db now) \<longrightarrow>
         length (take 10 (drop ((page - 1) * 10) (CommonListMixin_get_queryset db now))) = 10)
   \<and> (\<forall>page. page < 1 \<or> num_pages 10 (CommonListMixin_get_queryset db now) < page \<longrightarrow>
         IndexListView db now page = Inl Http404)
   \<and> (length (filter (\<lambda>p. is_published p \<and> pub_date p \<le> now
                 \<and> (\<exists>c. related_category db p = Some c \<and> category_is_published c))
               (posts db)) = 25 \<longrightarrow>
         IndexListView db now 1 = Inr (take 10 (CommonListMixin_get_queryset db now))
         \<and> IndexListView db now 2 = Inr (take 10 (drop 10 (CommonListMixin_get_queryset db now)))
         \<and> IndexListView db now 3 = Inr (drop 20 (CommonListMixin_get_queryset db now))
         \<and> length (take 10 (CommonListMixin_get_queryset db now)) = 10
         \<and> length (take 10 (drop 10 (CommonListMixin_get_queryset db now))) = 10
         \<and> length (drop 20 (CommonListMixin_get_queryset db now)) = 5
         \<and> IndexListView db now 4 = Inl Http404)"
proof -
  let ?qs = "CommonListMixin_get_queryset db now"
  let ?visible = "\<lambda>p. is_published p \<and> pub_date p \<le> now
                 \<and> (\<exists>c. related_category db p = Some c \<and> category_is_published c)"
  have exact: "mset (map fst ?qs) = mset (filter ?visible (posts db))"
    using CommonListMixin_posts [of db now] by (simp only: filter_CommonListMixin)
  have null: "p \<notin> fst ` set ?qs" if "p \<in> set (posts db)" "post_category p = None" for p
    using that(2) by (auto simp: CommonListMixin_row CommonListMixin_filter_iff
        related_category_def)
  have full: "length (take 10 (drop ((page - 1) * 10) ?qs)) = 10"
    if "1 \<le> page \<and> page < num_pages 10 ?qs" for page
    using that full_page [of 10 page ?qs] by simp
  have split: "IndexListView db now 1 = Inr (take 10 ?qs)
         \<and> IndexListView db now 2 = Inr (take 10 (drop 10 ?qs))
         \<and> IndexListView db now 3 = Inr (drop 20 ?qs)
         \<and> length (take 10 ?qs) = 10
         \<and> length (take 10 (drop 10 ?qs)) = 10
         \<and> length (drop 20 ?qs) = 5
         \<and> IndexListView db now 4 = Inl Http404"
    if "length (filter ?visible (posts db)) = 25"
  proof -
    from that have "length (filter (CommonListMixin_filter db now) (posts db)) = 25"
      by (simp only: filter_CommonListMixin)
    then have len: "length ?qs = 25" by (simp add: length_CommonListMixin)
    then have n: "num_pages 10 ?qs = 3" by (rule num_pages_25)
    from n have p1: "IndexListView db now 1 = Inr (take 10 ?qs)"
      using index_page_valid [of 1 db now] by simp
    from n have p2: "IndexListView db now 2 = Inr (take 10 (drop 10 ?qs))"
      using index_page_valid [of 2 db now] by simp
    from n len have p3: "IndexListView db now 3 = Inr (drop 20 ?qs)"
      using index_page_valid [of 3 db now] by simp
    from n have p4: "IndexListView db now 4 = Inl Http404"
      using index_page_invalid [of 4 db now] by simp
    from p1 p2 p3 p4 len show ?thesis by simp
  qed
  show ?thesis
  proof (intro conjI)
    show "mset (map fst ?qs) = mset (filter ?visible (posts db))" by (rule exact)
    show "\<forall>p \<in> set (posts db). post_category p = None \<longrightarrow> p \<notin> fst ` set ?qs"
      using null by blast
    show "sorted_wrt (\<lambda>r s. pub_date (fst s) \<le> pub_date (fst r)) ?qs"
      by (rule sorted_CommonListMixin)
    show "\<forall>page. 1 \<le> page \<and> page \<le> num_pages 10 ?qs \<longrightarrow>
         IndexListView db now page = Inr (take 10 (drop ((page - 1) * 10) ?qs))"
      using index_page_valid by blast
    show "\<forall>page. 1 \<le> page \<and> page < num_pages 10 ?qs \<longrightarrow>
         length (take 10 (drop ((page - 1) * 10) ?qs)) = 10"
      using full by blast
    show "\<forall>page. page < 1 \<or> num_pages 10 ?qs < page \<longrightarrow>
         IndexListView db now page = Inl Http404"
      using index_page_invalid by blast
    show "length (filter ?visible (posts db)) = 25 \<longrightarrow>
         IndexListView db now 1 = Inr (take 10 ?qs)
         \<and> IndexListView db now 2 = Inr (take 10 (drop 10 ?qs))
         \<and> IndexListView db now 3 = Inr (drop 20 ?qs)
         \<and> length (take 10 ?qs) = 10
         \<and> length (take 10 (drop 10 ?qs)) = 10
         \<and> length (drop 20 ?qs) = 5
         \<and> IndexListView db now 4 = Inl Http404"
      using split by (rule impI)
  qed
qed

lemma busy_blog_all_visible:
  "filter (CommonListMixin_filter busy_blog 30) (posts busy_blog) = posts busy_blog"
  by (simp add: filter_id_conv busy_blog_def CommonListMixin_filter_def
      lookup_category_is_published_def related_category_def mk_post_def travel_def)

lemma busy_blog_25: "length (filter (CommonListMixin_filter busy_blog 30) (posts busy_blog)) = 25"
  by (simp add: busy_blog_all_visible) (simp add: busy_blog_def)

lemma busy_pages: "map (\<lambda>r. post_pk (fst r)) (drop 20 (CommonListMixin_get_queryset busy_blog 30)) = [4,3,2,1,0]"
  unfolding CommonListMixin_get_queryset_def busy_blog_all_visible
  by code_simp


lemma busy_blog_25_visible:
  "length (filter (\<lambda>p. is_published p \<and> pub_date p \<le> 30
                 \<and> (\<exists>c. related_category busy_blog p = Some c \<and> category_is_published c))
             (posts busy_blog)) = 25"
  using busy_blog_25 by (simp only: filter_CommonListMixin)

text \<open>
  C6, at a concrete input: the blog with 25 visible posts, read at time 30, has pages of
  10, 10 and 5 rows, the last page holding the five earliest posts, latest first.
\<close>

theorem index_sorted_and_paginated_witness:
  "length (filter (\<lambda>p. is_published p \<and> pub_date p \<le> 30
                 \<and> (\<exists>c. related_category busy_blog p = Some c \<and> category_is_published c))
             (posts busy_blog)) = 25
   \<and> IndexListView busy_blog 30 1 = Inr (take 10 (CommonListMixin_get_queryset busy_blog 30))
   \<and> IndexListView busy_blog 30 2
       = Inr (take 10 (drop 10 (CommonListMixin_get_queryset busy_blog 30)))
   \<and> IndexListView busy_blog 30 3 = Inr (drop 20 (CommonListMixin_get_queryset busy_blog 30))
   \<and> length (take 10 (CommonListMixin_get_queryset busy_blog 30)) = 10
   \<and> length (take 10 (drop 10 (CommonListMixin_get_queryset busy_blog 30))) = 10
   \<and> length (drop 20 (CommonListMixin_get_queryset busy_blog 30)) = 5
   \<and> IndexListView busy_blog 30 4 = Inl Http404
   \<and> map (\<lambda>r. post_pk (fst r)) (drop 20 (CommonListMixin_get_queryset busy_blog 30))
       = [4, 3, 2, 1, 0]"
  using index_sorted_and_paginated [of busy_blog 30] busy_blog_25_visible busy_pages by blast

text \<open>
  C6 as stated fails: the post of the small blog without a category is publicly visible
  at time 10 in the words of the specification, and the index query at time 10 returns
  the two other visible posts without it.
\<close>

theorem index_null_category_counterexample:
  "post_no_category \<in> set (posts blog)
   \<and> spec_isPubliclyVisible blog post_no_category 10
   \<and> CommonListMixin_get_queryset blog 10 = [(post_now, 0), (post_visible, 2)]
   \<and> IndexListView blog 10 1 = Inr [(post_now, 0), (post_visible, 2)]
   \<and> post_no_category \<noteq> post_now \<and> post_no_category \<noteq> post_visible"
proof -
  have "post_no_category \<in> set (posts blog) \<and> spec_isPubliclyVisible blog post_no_category 10
     \<and> post_no_category \<noteq> post_now \<and> post_no_category \<noteq> post_visible"
    by (simp add: spec_isPubliclyVisible_def blog_defs)
  with blog_index blog_index_page show ?thesis by blast
qed

text \<open>
  C2 fails on the code. In the small blog at time 10, bob's profile asked by an anonymous
  viewer, and its first page asked by alice, list the two visible posts, both written by
  alice and none by bob: for a viewer who is not the owner the profile query is the
  unrestricted public listing, with no condition on the author.
\<close>

theorem other_profile_lists_foreign_posts:
  "ProfileListView_get_queryset blog AnonymousUser 10 (username bob)
     = Inr [(post_now, 0), (post_visible, 2)]
   \<and> ProfileListView blog (Authenticated alice) 10 (username bob) 1
     = Inr [(post_now, 0), (post_visible, 2)]
   \<and> post_author post_now = user_pk alice \<and> post_author post_visible = user_pk alice
   \<and> user_pk alice \<noteq> user_pk bob"
proof -
  have o: "get_object_or_404 (filter (\<lambda>u. username u = username bob) (users blog)) = Inr bob"
    by (simp add: blog_defs)
  have q: "ProfileListView_get_queryset blog usr 10 (username bob)
      = Inr [(post_now, 0), (post_visible, 2)]" if "\<not> is_user usr (user_pk bob)" for usr
    using o that by (simp add: ProfileListView_get_queryset_def blog_index)
  have a: "\<not> is_user AnonymousUser (user_pk bob)" "\<not> is_user (Authenticated alice) (user_pk bob)"
    by (simp_all add: blog_defs)
  have "ProfileListView blog (Authenticated alice) 10 (username bob) 1
     = Inr [(post_now, 0), (post_visible, 2)]"
    using q [OF a(2)]
    by (simp add: ProfileListView_def paginate_queryset_def Paginator_page_def num_pages_def
        MAX_QUANTITY_POST_def)
  moreover have "post_author post_now = user_pk alice \<and> post_author post_visible = user_pk alice
   \<and> user_pk alice \<noteq> user_pk bob"
    by (simp add: blog_defs)
  ultimately show ?thesis using q [OF a(1)] by blast
qed

lemma fold_max_start: "(a::nat) \<le> fold max ks a"
proof (induction ks arbitrary: a)
  case Nil
  then show ?case by simp
next
  case (Cons x xs)
  have "a \<le> max x a" by simp
  also have "\<dots> \<le> fold max xs (max x a)" by (rule Cons.IH)
  finally show ?case by simp
qed

lemma next_pk_upper: "k \<in> set ks \<Longrightarrow> (k::nat) \<le> fold max ks a"
proof (induction ks arbitrary: a)
  case Nil
  then show ?case by simp
next
  case (Cons x xs)
  show ?case
  proof (cases "k = x")
    case True
    have "x \<le> max x a" by simp
    also have "\<dots> \<le> fold max xs (max x a)" by (rule fold_max_start)
    finally show ?thesis using True by simp
  next
    case False
    with Cons.prems have "k \<in> set xs" by simp
    then show ?thesis using Cons.IH by simp
  qed
qed

lemma next_pk_fresh: "next_pk ks \<notin> set ks"
proof
  assume "next_pk ks \<in> set ks"
  then have "next_pk ks \<le> fold max ks 0" by (rule next_pk_upper)
  then show False by (simp add: next_pk_def)
qed

lemma post_by_key:
  "distinct (map post_pk (posts db)) \<Longrightarrow> p \<in> set (posts db) \<Longrightarrow>
     get_object_or_404 (filter (\<lambda>q. post_pk q = post_pk p) (posts db)) = Inr p"
  by (rule get_by_key)

lemma comment_by_key:
  "distinct (map comment_pk (comments db)) \<Longrightarrow> c \<in> set (comments db) \<Longrightarrow>
     get_object_or_404 (filter (\<lambda>d. comment_pk d = comment_pk c) (comments db)) = Inr c"
  by (rule get_by_key)

lemma post_denied:
  assumes "distinct (map post_pk (posts db))" "e \<in> set (posts db)"
    and "\<not> is_user usr (post_author e)"
  shows "PostVerifyMixin_dispatch db usr (post_pk e) handler
           = (HttpResponseRedirect (post_detail (post_pk e)), db)"
  using post_by_key [OF assms(1,2)] assms(3) by (simp add: PostVerifyMixin_dispatch_def)

lemma comment_denied:
  assumes "distinct (map comment_pk (comments db))" "c \<in> set (comments db)"
    and "\<not> is_user usr (comment_author c)"
  shows "CommentMixin_dispatch db usr post_id (comment_pk c) handler
           = (HttpResponseRedirect (post_detail post_id), db)"
  using comment_by_key [OF assms(1,2)] assms(3) by (simp add: CommentMixin_dispatch_def)

text \<open>
  C4 (as amended). An authenticated user who is not the author of a stored post is answered,
  on the edit and on the delete of that post and for either method, with a redirect to the
  detail page of that post, and the store is unchanged. An authenticated user who is not
  the author of a stored comment is answered, on the edit and on the delete of that comment,
  with a redirect to the detail page of the post whose key the request path carries, and
  the store is unchanged.
\<close>

theorem non_author_is_redirected:
  "(distinct (map post_pk (posts db)) \<and> e \<in> set (posts db) \<and> user_pk a \<noteq> post_author e \<longrightarrow>
      PostUpdateView db (Authenticated a) method (post_pk e) pform
        = (HttpResponseRedirect (post_detail (post_pk e)), db)
      \<and> PostDeleteView db (Authenticated a) method (post_pk e)
        = (HttpResponseRedirect (post_detail (post_pk e)), db))
   \<and> (distinct (map comment_pk (comments db)) \<and> c \<in> set (comments db)
       \<and> user_pk a \<noteq> comment_author c \<longrightarrow>
      CommentUpdateView db (Authenticated a) method post_id (comment_pk c) cform
        = (HttpResponseRedirect (post_detail post_id), db)
      \<and> CommentDeleteView db (Authenticated a) method post_id (comment_pk c)
        = (HttpResponseRedirect (post_detail post_id), db))"
  by (simp add: PostUpdateView_def PostDeleteView_def CommentUpdateView_def
      CommentDeleteView_def post_denied comment_denied)

text \<open>The author's own request does change the store.\<close>

lemma author_deletes_comment:
  "comments (snd (CommentDeleteView blog (Authenticated bob) POST
      (comment_post comment_by_bob) (comment_pk comment_by_bob)))
     = [comment_by_alice, comment_on_hidden]"
  by (simp add: CommentDeleteView_def CommentMixin_dispatch_def blog_defs)

text \<open>
  C4, at a concrete input: bob on alice's post and alice on bob's comment, the path naming
  the comment's own post, are redirected to the detail page of that post and the small
  blog is as before.
\<close>

theorem non_author_is_redirected_witness:
  "distinct (map post_pk (posts blog)) \<and> post_visible \<in> set (posts blog)
   \<and> user_pk bob \<noteq> post_author post_visible
   \<and> PostUpdateView blog (Authenticated bob) POST (post_pk post_visible) valid_post_form
       = (HttpResponseRedirect (post_detail (post_pk post_visible)), blog)
   \<and> PostDeleteView blog (Authenticated bob) POST (post_pk post_visible)
       = (HttpResponseRedirect (post_detail (post_pk post_visible)), blog)
   \<and> distinct (map comment_pk (comments blog)) \<and> comment_by_bob \<in> set (comments blog)
   \<and> user_pk alice \<noteq> comment_author comment_by_bob
   \<and> CommentUpdateView blog (Authenticated alice) POST (comment_post comment_by_bob)
        (comment_pk comment_by_bob) valid_comment_form
       = (HttpResponseRedirect (post_detail (comment_post comment_by_bob)), blog)
   \<and> CommentDeleteView blog (Authenticated alice) POST (comment_post comment_by_bob)
        (comment_pk comment_by_bob)
       = (HttpResponseRedirect (post_detail (comment_post comment_by_bob)), blog)
   \<and> comments (snd (CommentDeleteView blog (Authenticated bob) POST
        (comment_post comment_by_bob) (comment_pk comment_by_bob)))
       = [comment_by_alice, comment_on_hidden]"
proof -
  have h: "distinct (map post_pk (posts blog))" "post_visible \<in> set (posts blog)"
    "user_pk bob \<noteq> post_author post_visible"
    "distinct (map comment_pk (comments blog))" "comment_by_bob \<in> set (comments blog)"
    "user_pk alice \<noteq> comment_author comment_by_bob"
    by (simp_all add: blog_defs)
  from non_author_is_redirected [of blog post_visible bob POST valid_post_form]
       non_author_is_redirected [of blog _ alice POST _ comment_by_bob
          "comment_post comment_by_bob" valid_comment_form] h author_deletes_comment
  show ?thesis by blast
qed

text \<open>
  C4 as stated fails: bob's comment belongs to post 1; alice's edit or delete request for
  it under the path of post 4 is redirected to the detail page of post 4, which is not the
  comment's parent post.
\<close>

theorem comment_redirect_follows_path_counterexample:
  "comment_by_bob \<in> set (comments blog) \<and> is_authenticated (Authenticated alice)
   \<and> \<not> is_user (Authenticated alice) (comment_author comment_by_bob)
   \<and> comment_post comment_by_bob = 1
   \<and> CommentUpdateView blog (Authenticated alice) POST 4 (comment_pk comment_by_bob)
        valid_comment_form = (HttpResponseRedirect (post_detail 4), blog)
   \<and> CommentDeleteView blog (Authenticated alice) POST 4 (comment_pk comment_by_bob)
       = (HttpResponseRedirect (post_detail 4), blog)
   \<and> post_detail 4 \<noteq> post_detail (comment_post comment_by_bob)"
  by (simp add: CommentUpdateView_def CommentDeleteView_def CommentMixin_dispatch_def blog_defs)

text \<open>
  C10 (as amended). An anonymous request to edit or delete a stored post is answered with
  a redirect to the detail page of that post, and an anonymous request to edit or delete a
  stored comment with a redirect to the detail page of the post whose key the request path
  carries, which is the comment's parent post when the path names it; neither is the
  redirect to the login page, and the store is unchanged. The author check of the two
  dispatch methods runs first; comment creation, which has no such check, does send the
  anonymous requester to the login page.
\<close>

theorem anonymous_is_redirected_to_detail:
  "(distinct (map post_pk (posts db)) \<and> e \<in> set (posts db) \<longrightarrow>
      PostUpdateView db AnonymousUser method (post_pk e) pform
        = (HttpResponseRedirect (post_detail (post_pk e)), db)
      \<and> PostDeleteView db AnonymousUser method (post_pk e)
        = (HttpResponseRedirect (post_detail (post_pk e)), db))
   \<and> (distinct (map comment_pk (comments db)) \<and> c \<in> set (comments db) \<longrightarrow>
      CommentUpdateView db AnonymousUser method post_id (comment_pk c) cform
        = (HttpResponseRedirect (post_detail post_id), db)
      \<and> CommentDeleteView db AnonymousUser method post_id (comment_pk c)
        = (HttpResponseRedirect (post_detail post_id), db)
      \<and> CommentUpdateView db AnonymousUser method (comment_post c) (comment_pk c) cform
        = (HttpResponseRedirect (post_detail (comment_post c)), db)
      \<and> CommentDeleteView db AnonymousUser method (comment_post c) (comment_pk c)
        = (HttpResponseRedirect (post_detail (comment_post c)), db))
   \<and> HttpResponseRedirect (post_detail post_id) \<noteq> HttpResponseRedirect login
   \<and> CommentCreateView db AnonymousUser now method post_id cform
        = (HttpResponseRedirect login, db)"
  by (simp add: PostUpdateView_def PostDeleteView_def CommentUpdateView_def
      CommentDeleteView_def CommentCreateView_def post_denied comment_denied)

text \<open>
  C10, at a concrete input: anonymous edit and delete requests for a post and for a
  comment of the small blog.
\<close>

theorem anonymous_is_redirected_to_detail_witness:
  "distinct (map post_pk (posts blog)) \<and> post_visible \<in> set (posts blog)
   \<and> PostUpdateView blog AnonymousUser POST (post_pk post_visible) valid_post_form
       = (HttpResponseRedirect (post_detail (post_pk post_visible)), blog)
   \<and> PostDeleteView blog AnonymousUser POST (post_pk post_visible)
       = (HttpResponseRedirect (post_detail (post_pk post_visible)), blog)
   \<and> distinct (map comment_pk (comments blog)) \<and> comment_by_bob \<in> set (comments blog)
   \<and> CommentUpdateView blog AnonymousUser POST 1 (comment_pk comment_by_bob) valid_comment_form
       = (HttpResponseRedirect (post_detail 1), blog)
   \<and> CommentDeleteView blog AnonymousUser POST 1 (comment_pk comment_by_bob)
       = (HttpResponseRedirect (post_detail 1), blog)"
proof -
  have h: "distinct (map post_pk (posts blog))" "post_visible \<in> set (posts blog)"
    "distinct (map comment_pk (comments blog))" "comment_by_bob \<in> set (comments blog)"
    by (simp_all add: blog_defs)
  from anonymous_is_redirected_to_detail
         [of blog post_visible POST valid_post_form comment_by_bob 1 valid_comment_form] h
  show ?thesis by blast
qed

text \<open>
  C10 as stated fails: bob's comment belongs to post 1; an anonymous edit or delete
  request for it under the path of post 4, or of post 99, which no post has, is redirected
  to the detail page of the post of the path, not of the comment's parent post.
\<close>

theorem anonymous_redirect_follows_path_counterexample:
  "comment_by_bob \<in> set (comments blog) \<and> comment_post comment_by_bob = 1
   \<and> CommentUpdateView blog AnonymousUser POST 4 (comment_pk comment_by_bob)
        valid_comment_form = (HttpResponseRedirect (post_detail 4), blog)
   \<and> CommentDeleteView blog AnonymousUser POST 4 (comment_pk comment_by_bob)
       = (HttpResponseRedirect (post_detail 4), blog)
   \<and> CommentDeleteView blog AnonymousUser GET 99 (comment_pk comment_by_bob)
       = (HttpResponseRedirect (post_detail 99), blog)
   \<and> 99 \<notin> post_pk ` set (posts blog)
   \<and> post_detail 4 \<noteq> post_detail (comment_post comment_by_bob)
   \<and> post_detail 99 \<noteq> post_detail (comment_post comment_by_bob)"
  by (simp add: CommentUpdateView_def CommentDeleteView_def CommentMixin_dispatch_def blog_defs)

text \<open>
  C9. Where post keys are unique, a valid comment form posted by an authenticated user to
  the comment endpoint of any stored post adds one comment to the store, under a key no
  stored comment has, with that user as author and that post as parent, and redirects to
  the detail page of the post. Nothing is assumed about the post's publication flag,
  timestamp, category or author.
\<close>

theorem comment_created_without_visibility_check:
  assumes "distinct (map post_pk (posts db))" "p \<in> set (posts db)"
    and "comment_form_is_valid form"
  shows "CommentCreateView db (Authenticated v) now POST (post_pk p) form =
           (HttpResponseRedirect (post_detail (post_pk p)),
            db\<lparr>comments := comments db @
                 [\<lparr>comment_pk = next_pk (map comment_pk (comments db)),
                   comment_post = post_pk p,
                   comment_author = user_pk v,
                   comment_text = comment_form_text form,
                   comment_created_at = now\<rparr>]\<rparr>)
         \<and> next_pk (map comment_pk (comments db)) \<notin> comment_pk ` set (comments db)"
  using post_by_key [OF assms(1,2)] assms(3) next_pk_fresh [of "map comment_pk (comments db)"]
  by (simp add: CommentCreateView_def)

text \<open>
  C9, at a concrete input: alice comments on bob's unpublished post.
\<close>

theorem comment_created_without_visibility_check_witness:
  "distinct (map post_pk (posts blog)) \<and> post_unpublished \<in> set (posts blog)
   \<and> comment_form_is_valid valid_comment_form
   \<and> \<not> is_published post_unpublished \<and> post_author post_unpublished \<noteq> user_pk alice
   \<and> CommentCreateView blog (Authenticated alice) 10 POST (post_pk post_unpublished)
        valid_comment_form =
       (HttpResponseRedirect (post_detail 6),
        blog\<lparr>comments := comments blog @
               [\<lparr>comment_pk = 4, comment_post = 6, comment_author = 1,
                 comment_text = ''edited'', comment_created_at = 10\<rparr>]\<rparr>)"
proof -
  have h: "distinct (map post_pk (posts blog))" "post_unpublished \<in> set (posts blog)"
    "comment_form_is_valid valid_comment_form"
    by (simp_all add: blog_defs valid_comment_form_def)
  have k: "\<not> is_published post_unpublished" "post_author post_unpublished \<noteq> user_pk alice"
    "post_pk post_unpublished = 6" "user_pk alice = 1"
    "comment_form_text valid_comment_form = ''edited''"
    "next_pk (map comment_pk (comments blog)) = 4"
    by (simp_all add: blog_defs valid_comment_form_def next_pk_def)
  from comment_created_without_visibility_check [OF h, of alice 10] h k
  show ?thesis by simp
qed

end
